theory Spec2Isabelle
  imports Main
begin

section \<open>Python string primitives used by \<open>webob/etag.py\<close>\<close>

text \<open>
  The module is Python 2 code (\<open>__nonzero__\<close>, \<open>map\<close> returning a list), so a header
  value is a byte string: a \<^typ>\<open>string\<close> here. Only the string methods the module
  calls are modelled, each with the arguments it is called with.
\<close>

abbreviation dq :: char where
  "dq \<equiv> CHR 0x22"

text \<open>\<open>str.lower\<close> in the C locale: the ASCII capitals move to lower case.\<close>

definition lower_char :: "char \<Rightarrow> char" where
  "lower_char c =
     (case map_of (zip ''ABCDEFGHIJKLMNOPQRSTUVWXYZ'' ''abcdefghijklmnopqrstuvwxyz'') c of
        None \<Rightarrow> c
      | Some l \<Rightarrow> l)"

definition lower :: "string \<Rightarrow> string" where
  "lower s = map lower_char s"

definition startswith :: "string \<Rightarrow> string \<Rightarrow> bool" where
  "startswith s p = (take (length p) s = p)"

definition endswith :: "string \<Rightarrow> string \<Rightarrow> bool" where
  "endswith s p = (length p \<le> length s \<and> drop (length s - length p) s = p)"

text \<open>\<open>s.strip(chars)\<close>: drop the characters of \<open>chars\<close> from both ends.\<close>

definition strip :: "string \<Rightarrow> string \<Rightarrow> string" where
  "strip s chars =
     rev (dropWhile (\<lambda>c. c \<in> set chars) (rev (dropWhile (\<lambda>c. c \<in> set chars) s)))"

text \<open>\<open>s.strip()\<close> drops the whitespace of a Python 2 byte string: space, tab, line feed,
  carriage return, vertical tab and form feed.\<close>

definition whitespace :: string where
  "whitespace = [CHR '' '', CHR 0x09, CHR 0x0A, CHR 0x0D, CHR 0x0B, CHR 0x0C]"

definition strip_ws :: "string \<Rightarrow> string" where
  "strip_ws s = strip s whitespace"

text \<open>\<open>s.split(c, 1)\<close> for a one-character separator: at most one split, at the first
  occurrence; the list has one element when the separator does not occur.\<close>

definition split1 :: "string \<Rightarrow> char \<Rightarrow> string list" where
  "split1 s c =
     (if c \<in> set s then [takeWhile (\<lambda>x. x \<noteq> c) s, tl (dropWhile (\<lambda>x. x \<noteq> c) s)]
      else [s])"

text \<open>\<open>sep.join(items)\<close>.\<close>

fun join :: "string \<Rightarrow> string list \<Rightarrow> string" where
  "join sep [] = []"
| "join sep [x] = x"
| "join sep (x # y # ys) = x @ sep @ join sep (y # ys)"

datatype error = ValueError | ParseError

text \<open>The tuple assignment \<open>a, b = xs\<close> raises \<open>ValueError\<close> unless \<open>xs\<close> has exactly
  two elements.\<close>

definition unpack2 :: "'a list \<Rightarrow> error + ('a \<times> 'a)" where
  "unpack2 xs = (case xs of [a, b] \<Rightarrow> Inr (a, b) | _ \<Rightarrow> Inl ValueError)"

section \<open>The tag values\<close>

text \<open>
  \<open>AnyETag\<close> and \<open>NoETag\<close> are the module's two singletons; an \<open>ETagMatcher\<close> holds the
  lists \<open>etags\<close> and \<open>weak_etags\<close>.
\<close>

datatype etag_value =
    AnyETag
  | NoETag
  | ETagMatcher (etags: "string list") (weak_etags: "string list")

text \<open>\<open>other in xs\<close> on a list of strings, where \<open>other\<close> is a string or \<open>None\<close>
  (\<open>None\<close> equals no string).\<close>

definition py_in :: "string option \<Rightarrow> string list \<Rightarrow> bool" where
  "py_in other xs = (case other of None \<Rightarrow> False | Some t \<Rightarrow> t \<in> set xs)"

text \<open>\<open>__contains__\<close> of the three classes.\<close>

fun contains :: "etag_value \<Rightarrow> string option \<Rightarrow> bool" where
  "contains AnyETag other = True"
| "contains NoETag other = False"
| "contains (ETagMatcher es ws) other = (py_in other es \<or> py_in other ws)"

section \<open>\<open>ETagMatcher.parse\<close>\<close>

text \<open>
  One pass through the body of the \<open>while\<close> loop, up to the assignment of \<open>etag\<close> and
  \<open>rest\<close> (lines 112 to 132): the weak flag, the extracted tag and the remaining text.
  Both tuple assignments go through \<^const>\<open>unpack2\<close>; only the first one is inside a
  \<open>try\<close> that catches \<open>ValueError\<close>.
\<close>

definition parse_item :: "string \<Rightarrow> error + (bool \<times> string \<times> string)" where
  "parse_item value0 =
     (let weak = startswith (lower value0) ''w/'';
          value = (if weak then drop 2 value0 else value0)
      in if startswith value [dq] then
           (case unpack2 (split1 (drop 1 value) dq) of
              Inl e \<Rightarrow> Inr (weak, strip value ([CHR '' '', dq, CHR '','']), [])
            | Inr (etag, rest) \<Rightarrow> Inr (weak, etag, strip rest '', ''))
         else if CHR '','' \<in> set value then
           (case unpack2 (split1 value (CHR '','')) of
              Inl e \<Rightarrow> Inl e
            | Inr (etag, rest) \<Rightarrow> Inr (weak, etag, strip_ws rest))
         else Inr (weak, value, []))"

lemma length_strip_le: "length (strip s chars) \<le> length s"
proof -
  have "length (strip s chars) \<le> length (rev (dropWhile (\<lambda>c. c \<in> set chars) s))"
    unfolding strip_def length_rev [of "dropWhile _ (rev _)"] by (rule length_dropWhile_le)
  also have "\<dots> = length (dropWhile (\<lambda>c. c \<in> set chars) s)"
    by simp
  also have "\<dots> \<le> length s"
    by (rule length_dropWhile_le)
  finally show ?thesis .
qed

lemma length_after_sep: "c \<in> set s \<Longrightarrow> length (tl (dropWhile (\<lambda>x. x \<noteq> c) s)) < length s"
proof -
  assume "c \<in> set s"
  then have "dropWhile (\<lambda>x. x \<noteq> c) s \<noteq> []"
    by simp
  then have "length (tl (dropWhile (\<lambda>x. x \<noteq> c) s)) < length (dropWhile (\<lambda>x. x \<noteq> c) s)"
    by (cases "dropWhile (\<lambda>x. x \<noteq> c) s") simp_all
  also have "\<dots> \<le> length s"
    by (rule length_dropWhile_le)
  finally show ?thesis .
qed

lemma parse_item_shorter:
  assumes "value \<noteq> []" and "parse_item value = Inr (weak, etag, rest)"
  shows "length rest < length value"
proof -
  define v where "v = (if startswith (lower value) ''w/'' then drop 2 value else value)"
  have v_le: "length v \<le> length value"
    by (simp add: v_def)
  show ?thesis
  proof (cases "startswith v [dq]")
    case quoted: True
    then have v_ne: "v \<noteq> []"
      by (auto simp: startswith_def)
    show ?thesis
    proof (cases "dq \<in> set (drop 1 v)")
      case True
      with quoted assms(2) have "rest = strip (tl (dropWhile (\<lambda>x. x \<noteq> dq) (drop 1 v))) '', ''"
        by (auto simp: parse_item_def Let_def v_def [symmetric] split1_def unpack2_def)
      then have "length rest \<le> length (tl (dropWhile (\<lambda>x. x \<noteq> dq) (drop 1 v)))"
        using length_strip_le by blast
      also have "\<dots> < length (drop 1 v)"
        using True by (rule length_after_sep)
      also have "\<dots> \<le> length value"
        using v_le by simp
      finally show ?thesis .
    next
      case False
      with quoted assms(2) have "rest = []"
        by (auto simp: parse_item_def Let_def v_def [symmetric] split1_def unpack2_def)
      with assms(1) show ?thesis by simp
    qed
  next
    case unquoted: False
    show ?thesis
    proof (cases "CHR '','' \<in> set v")
      case True
      with unquoted assms(2) have "rest = strip_ws (tl (dropWhile (\<lambda>x. x \<noteq> CHR '','') v))"
        by (auto simp: parse_item_def Let_def v_def [symmetric] split1_def unpack2_def)
      then have "length rest \<le> length (tl (dropWhile (\<lambda>x. x \<noteq> CHR '','') v))"
        unfolding strip_ws_def using length_strip_le by blast
      also have "\<dots> < length v"
        using True by (rule length_after_sep)
      also note v_le
      finally show ?thesis .
    next
      case False
      with unquoted assms(2) have "rest = []"
        by (auto simp: parse_item_def Let_def v_def [symmetric] split1_def unpack2_def)
      with assms(1) show ?thesis by simp
    qed
  qed
qed

text \<open>
  The \<open>while\<close> loop of \<open>parse\<close> (lines 111 to 141), with the two result lists as
  accumulators; \<open>list.append\<close> adds at the end.
\<close>

function parse_loop :: "string \<Rightarrow> string list \<Rightarrow> string list \<Rightarrow> error + etag_value" where
  "parse_loop value results weak_results =
     (if value = [] then Inr (ETagMatcher results weak_results)
      else
        (case parse_item value of
           Inl e \<Rightarrow> Inl e
         | Inr (weak, etag, rest) \<Rightarrow>
             if etag = ''*'' then Inr AnyETag
             else if etag \<noteq> [] then
               (if weak then parse_loop rest results (weak_results @ [etag])
                else parse_loop rest (results @ [etag]) weak_results)
             else parse_loop rest results weak_results))"
  by pat_completeness auto
termination
  by (relation "measure (\<lambda>(value, results, weak_results). length value)")
     (auto dest: parse_item_shorter)

definition ETagMatcher_parse :: "string \<Rightarrow> error + etag_value" where
  "ETagMatcher_parse value = parse_loop value [] []"

text \<open>
  The tags the loop extracts, one per pass, in order: the value \<open>etag\<close> has at line 133
  in each pass, up to and including the first \<open>*\<close>. The recursion is that of
  \<^const>\<open>parse_loop\<close>; the result lists are left out.
\<close>

function extracted :: "string \<Rightarrow> string list" where
  "extracted value =
     (if value = [] then []
      else
        (case parse_item value of
           Inl e \<Rightarrow> []
         | Inr (weak, etag, rest) \<Rightarrow>
             if etag = ''*'' then [etag] else etag # extracted rest))"
  by pat_completeness auto
termination
  by (relation "measure length") (auto dest: parse_item_shorter)

section \<open>\<open>__str__\<close>\<close>

text \<open>The two formats, \<open>'"%s"' % tag\<close> and \<open>'W/"%s"' % tag\<close>, for a tag that is a string.\<close>

definition fmt_strong :: "string \<Rightarrow> string" where
  "fmt_strong tag = [dq] @ tag @ [dq]"

definition fmt_weak :: "string \<Rightarrow> string" where
  "fmt_weak tag = ''W/'' @ [dq] @ tag @ [dq]"

text \<open>The \<open>for\<close> loop of \<open>ETagMatcher.__str__\<close> appends to \<open>items\<close> one weak tag at a
  time.\<close>

fun append_weak :: "string list \<Rightarrow> string list \<Rightarrow> string list" where
  "append_weak items [] = items"
| "append_weak items (weak # rest) = append_weak (items @ [fmt_weak weak]) rest"

fun str_etag :: "etag_value \<Rightarrow> string" where
  "str_etag AnyETag = ''*''"
| "str_etag NoETag = []"
| "str_etag (ETagMatcher es ws) = join '', '' (append_weak (map fmt_strong es) ws)"

section \<open>\<open>IfRange\<close> and \<open>IfRangeDate\<close>\<close>

text \<open>
  Modelled from the spec: \<open>parse_date\<close> comes from \<open>webob.datetime_utils\<close>, which is not
  part of the source at hand. It is a parameter of every function that calls it, with the
  contract the specification gives it: it returns a timestamp or fails. Timestamps are
  any linearly ordered type; a timestamp is a true value in a Python condition.
\<close>

type_synonym 't date_parser = "string \<Rightarrow> error + 't"

datatype 't if_range = IfRange etag_value | IfRangeDate 't

text \<open>The \<open>last_modified\<close> argument: \<open>None\<close>, a string or a timestamp.\<close>

datatype 't last_modified = LM_None | LM_Str string | LM_Time 't

text \<open>\<open>IfRange.parse\<close>; the header value is a string or \<open>None\<close>, and \<open>not value\<close> holds
  for \<open>None\<close> and for the empty string.\<close>

definition IfRange_parse :: "'t date_parser \<Rightarrow> string option \<Rightarrow> error + 't if_range" where
  "IfRange_parse parse_date value =
     (case value of
        None \<Rightarrow> Inr (IfRange AnyETag)
      | Some v \<Rightarrow>
          if v = [] then Inr (IfRange AnyETag)
          else if endswith v '' GMT'' then
            (case parse_date v of Inl e \<Rightarrow> Inl e | Inr d \<Rightarrow> Inr (IfRangeDate d))
          else
            (case ETagMatcher_parse v of Inl e \<Rightarrow> Inl e | Inr m \<Rightarrow> Inr (IfRange m)))"

text \<open>\<open>IfRange.match\<close>, on the object's field \<open>self.etag\<close>.\<close>

definition IfRange_match :: "etag_value \<Rightarrow> string option \<Rightarrow> 't last_modified \<Rightarrow> bool" where
  "IfRange_match self_etag etag last_modified = contains self_etag etag"

text \<open>
  \<open>IfRangeDate.match\<close>, on the object's field \<open>self.date\<close>. The result of
  \<open>last_modified and (last_modified <= self.date)\<close> is \<open>None\<close> when \<open>last_modified\<close> is
  \<open>None\<close>, and the comparison otherwise: \<^term>\<open>None :: bool option\<close> stands for Python's
  \<open>None\<close>.
\<close>

definition IfRangeDate_match ::
  "('t::linorder) date_parser \<Rightarrow> 't \<Rightarrow> string option \<Rightarrow> 't last_modified \<Rightarrow> error + bool option"
where
  "IfRangeDate_match parse_date self_date etag last_modified =
     (case last_modified of
        LM_Str s \<Rightarrow>
          (case parse_date s of
             Inl e \<Rightarrow> Inl e
           | Inr t \<Rightarrow> Inr (Some (t \<le> self_date)))
      | LM_None \<Rightarrow> Inr None
      | LM_Time t \<Rightarrow> Inr (Some (t \<le> self_date)))"

text \<open>The call \<open>obj.match(etag, last_modified)\<close> on either class.\<close>

fun match :: "('t::linorder) date_parser \<Rightarrow> 't if_range \<Rightarrow> string option \<Rightarrow> 't last_modified
    \<Rightarrow> error + bool option" where
  "match parse_date (IfRange e) etag last_modified =
     Inr (Some (IfRange_match e etag last_modified))"
| "match parse_date (IfRangeDate d) etag last_modified =
     IfRangeDate_match parse_date d etag last_modified"

section \<open>The specification's reading of header values\<close>

text \<open>
  The grammar of the specification's section on external interfaces: a list of elements,
  each an optional weak marker followed by a quoted tag, joined by a comma and a space.
  The marker is matched without regard to case, so both spellings are kept.
\<close>

datatype marker = Strong | WeakUpper | WeakLower

fun marker_text :: "marker \<Rightarrow> string" where
  "marker_text Strong = []"
| "marker_text WeakUpper = ''W/''"
| "marker_text WeakLower = ''w/''"

definition element_text :: "marker \<times> string \<Rightarrow> string" where
  "element_text e = marker_text (fst e) @ [dq] @ snd e @ [dq]"

definition header_text :: "(marker \<times> string) list \<Rightarrow> string" where
  "header_text es = join '', '' (map element_text es)"

definition strong_bodies :: "(marker \<times> string) list \<Rightarrow> string list" where
  "strong_bodies es = map snd (filter (\<lambda>e. fst e = Strong) es)"

definition weak_bodies :: "(marker \<times> string) list \<Rightarrow> string list" where
  "weak_bodies es = map snd (filter (\<lambda>e. fst e \<noteq> Strong) es)"

text \<open>A tag body the quoted form can carry: not empty, without a quote character, and
  not the wildcard.\<close>

definition quotable :: "string \<Rightarrow> bool" where
  "quotable b = (b \<noteq> [] \<and> dq \<notin> set b \<and> b \<noteq> ''*'')"

text \<open>
  The specification's testable property speaks of the comma-separated elements of a
  value, quoted or not, each with an optional weak marker. Read literally: cut the value
  at every comma, trim the spaces around each piece, drop a weak marker, and take the
  text between the quotes when the piece is quoted.
\<close>

fun split_commas :: "string \<Rightarrow> string list" where
  "split_commas [] = [[]]"
| "split_commas (c # cs) =
     (if c = CHR '','' then [] # split_commas cs
      else (case split_commas cs of [] \<Rightarrow> [[c]] | p # ps \<Rightarrow> (c # p) # ps))"



text \<open>
  The specification's wording of \<open>RangeCondition.parse\<close>: the test for a date is made on
  the trimmed value.
\<close>

definition spec_IfRange_parse :: "'t date_parser \<Rightarrow> string option \<Rightarrow> error + 't if_range" where
  "spec_IfRange_parse parse_date value =
     (case value of
        None \<Rightarrow> Inr (IfRange AnyETag)
      | Some v \<Rightarrow>
          if v = [] then Inr (IfRange AnyETag)
          else if endswith (strip_ws v) '' GMT'' then
            (case parse_date v of Inl e \<Rightarrow> Inl e | Inr d \<Rightarrow> Inr (IfRangeDate d))
          else
            (case ETagMatcher_parse v of Inl e \<Rightarrow> Inl e | Inr m \<Rightarrow> Inr (IfRange m)))"

text \<open>
  Modelled from the spec: a date parser to run the examples with, since \<open>parse_date\<close> is
  not part of the source at hand. It knows the two dates of the specification's example,
  as seconds since 1970 and with or without whitespace around them, and fails on every
  other string.
\<close>

definition example_parse_date :: "nat date_parser" where
  "example_parse_date s =
     (if strip_ws s = ''Sun, 06 Nov 1994 08:49:37 GMT'' then Inr 784111777
      else if strip_ws s = ''Mon, 07 Nov 1994 08:49:37 GMT'' then Inr 784198177
      else Inl ParseError)"

section \<open>The parsing loop: totality and the wildcard\<close>

declare parse_loop.simps [simp del] extracted.simps [simp del]

text \<open>The equations that evaluate the string primitives and the parser on a literal.\<close>

lemmas string_eval = startswith_def endswith_def lower_def lower_char_def strip_def strip_ws_def
  whitespace_def split1_def unpack2_def

lemmas parse_eval = ETagMatcher_parse_def parse_loop.simps parse_item_def string_eval

lemma unpack2_split1:
  "c \<in> set s \<Longrightarrow>
   unpack2 (split1 s c) = Inr (takeWhile (\<lambda>x. x \<noteq> c) s, tl (dropWhile (\<lambda>x. x \<noteq> c) s))"
  by (simp add: unpack2_def split1_def)

lemma unpack2_split1_none: "c \<notin> set s \<Longrightarrow> unpack2 (split1 s c) = Inl ValueError"
  by (simp add: unpack2_def split1_def)

text \<open>One pass of the loop never raises: the only \<open>ValueError\<close> is the caught one.\<close>

lemma parse_item_total: "\<exists>weak etag rest. parse_item value = Inr (weak, etag, rest)"
proof -
  define v where "v = (if startswith (lower value) ''w/'' then drop 2 value else value)"
  show ?thesis
  proof (cases "startswith v [dq]")
    case True
    then show ?thesis
      by (cases "dq \<in> set (drop 1 v)")
         (simp_all add: parse_item_def Let_def v_def [symmetric] unpack2_split1 unpack2_split1_none)
  next
    case False
    then show ?thesis
      by (cases "CHR '','' \<in> set v")
         (simp_all add: parse_item_def Let_def v_def [symmetric] unpack2_split1)
  qed
qed

lemma parse_loop_total: "\<exists>r. parse_loop value results weak_results = Inr r"
proof (induction "value" results weak_results rule: parse_loop.induct)
  case (1 "value" results weak_results)
  show ?case
  proof (cases "value = []")
    case True
    then show ?thesis by (simp add: parse_loop.simps)
  next
    case False
    obtain weak etag rest where item: "parse_item value = Inr (weak, etag, rest)"
      using parse_item_total by blast
    show ?thesis
      using False item "1.IH" [OF False item [unfolded prod.collapse] refl refl]
      by (subst parse_loop.simps) auto
  qed
qed

lemma parse_loop_any_iff:
  "parse_loop value results weak_results = Inr AnyETag \<longleftrightarrow> ''*'' \<in> set (extracted value)"
proof (induction "value" results weak_results rule: parse_loop.induct)
  case (1 "value" results weak_results)
  show ?case
  proof (cases "value = []")
    case True
    then show ?thesis by (simp add: parse_loop.simps extracted.simps)
  next
    case False
    obtain weak etag rest where item: "parse_item value = Inr (weak, etag, rest)"
      using parse_item_total by blast
    show ?thesis
      using False item "1.IH" [OF False item [unfolded prod.collapse] refl refl]
      by (subst parse_loop.simps, subst extracted.simps) auto
  qed
qed

lemma length_extracted: "length (extracted value) \<le> length value"
proof (induction "value" rule: extracted.induct)
  case (1 "value")
  show ?case
  proof (cases "value = []")
    case True
    then show ?thesis by (simp add: extracted.simps)
  next
    case False
    obtain weak etag rest where item: "parse_item value = Inr (weak, etag, rest)"
      using parse_item_total by blast
    have "length rest < length value"
      using False item by (rule parse_item_shorter)
    then show ?thesis
      using False item "1.IH" [OF False item [unfolded prod.collapse] refl refl]
      by (subst extracted.simps) auto
  qed
qed

text \<open>
  C2. Whenever one of the tags the loop extracts is exactly \<open>*\<close>, the loop returns
  \<open>AnyETag\<close> whatever the result lists hold at that point, so every tag collected before
  is discarded. Both \<open>parse("*")\<close> and \<open>parse('"a", *')\<close> return \<open>AnyETag\<close>.
\<close>

theorem first_star_wins:
  "(''*'' \<in> set (extracted value) \<longrightarrow> parse_loop value results weak_results = Inr AnyETag)
   \<and> ETagMatcher_parse ''*'' = Inr AnyETag
   \<and> ETagMatcher_parse ([dq] @ ''a'' @ [dq] @ '', *'') = Inr AnyETag"
proof (intro conjI)
  show "''*'' \<in> set (extracted value) \<longrightarrow> parse_loop value results weak_results = Inr AnyETag"
    by (simp add: parse_loop_any_iff)
  show "ETagMatcher_parse ''*'' = Inr AnyETag"
    by code_simp
  show "ETagMatcher_parse ([dq] @ ''a'' @ [dq] @ '', *'') = Inr AnyETag"
    by code_simp
qed

theorem first_star_wins_witness:
  "''*'' \<in> set (extracted ([dq] @ ''a'' @ [dq] @ '', *''))
   \<and> parse_loop ([dq] @ ''a'' @ [dq] @ '', *'') [''a''] [''b''] = Inr AnyETag"
proof -
  have h: "''*'' \<in> set (extracted ([dq] @ ''a'' @ [dq] @ '', *''))"
    by code_simp
  with first_star_wins [of "[dq] @ ''a'' @ [dq] @ '', *''" "[''a'']" "[''b'']"]
  show ?thesis by blast
qed

text \<open>
  C3. \<open>ETagMatcher.parse\<close> raises on no input: each pass of the loop yields a tag and a
  remainder, and the whole parse returns a value. On the unterminated quote \<open>"abc\<close> it
  returns the matcher with strong tags \<open>["abc"]\<close> and no weak tag, after a single pass.
\<close>

theorem parse_never_raises:
  "(\<exists>weak etag rest. parse_item value = Inr (weak, etag, rest))
   \<and> (\<exists>r. ETagMatcher_parse value = Inr r)
   \<and> ETagMatcher_parse (dq # ''abc'') = Inr (ETagMatcher [''abc''] [])
   \<and> extracted (dq # ''abc'') = [''abc'']"
proof (intro conjI)
  show "\<exists>weak etag rest. parse_item value = Inr (weak, etag, rest)"
    by (rule parse_item_total)
  show "\<exists>r. ETagMatcher_parse value = Inr r"
    unfolding ETagMatcher_parse_def by (rule parse_loop_total)
  show "ETagMatcher_parse (dq # ''abc'') = Inr (ETagMatcher [''abc''] [])"
    by code_simp
  show "extracted (dq # ''abc'') = [''abc'']"
    by code_simp
qed

text \<open>
  C8. \<open>ETagMatcher.parse("")\<close> returns the matcher with two empty lists; it contains no
  tag (nor \<open>None\<close>), and it is neither \<open>AnyETag\<close> nor \<open>NoETag\<close>.
\<close>

theorem parse_empty:
  "ETagMatcher_parse [] = Inr (ETagMatcher [] [])
   \<and> \<not> contains (ETagMatcher [] []) t
   \<and> ETagMatcher [] [] \<noteq> AnyETag
   \<and> ETagMatcher [] [] \<noteq> NoETag"
  by (simp add: ETagMatcher_parse_def parse_loop.simps py_in_def split: option.split)

text \<open>
  C10. \<open>ETagMatcher.parse\<close> terminates: on a non-empty remainder a pass of the loop
  succeeds and leaves a strictly shorter remainder, the loop makes at most as many
  passes as the value has characters, and the parse returns a value.
\<close>

theorem parse_loop_progress:
  "(value \<noteq> [] \<longrightarrow>
      (\<exists>weak etag rest. parse_item value = Inr (weak, etag, rest) \<and> length rest < length value))
   \<and> length (extracted value) \<le> length value
   \<and> (\<exists>r. ETagMatcher_parse value = Inr r)"
proof (intro conjI impI)
  assume "value \<noteq> []"
  then show "\<exists>weak etag rest. parse_item value = Inr (weak, etag, rest) \<and> length rest < length value"
    using parse_item_total [of "value"] parse_item_shorter [of "value"] by blast
next
  show "length (extracted value) \<le> length value"
    by (rule length_extracted)
next
  show "\<exists>r. ETagMatcher_parse value = Inr r"
    unfolding ETagMatcher_parse_def by (rule parse_loop_total)
qed

theorem parse_loop_progress_witness:
  "''a, b'' \<noteq> [] \<and>
   (\<exists>weak etag rest. parse_item ''a, b'' = Inr (weak, etag, rest) \<and> length rest < length ''a, b'')"
  using parse_loop_progress [of "''a, b''"] by simp

section \<open>Serialisation\<close>

lemma append_weak_map: "append_weak items ws = items @ map fmt_weak ws"
  by (induction ws arbitrary: items) simp_all

text \<open>
  C6. The string form of a matcher with strong tags \<open>ss\<close> and weak tags \<open>ws\<close> is the
  join with a comma and a space of every strong tag between quotes, followed by every
  weak tag between quotes after \<open>W/\<close>, each list in its order.
\<close>

theorem str_etag_joined:
  "str_etag (ETagMatcher ss ws) =
     join '', '' (map (\<lambda>s. [dq] @ s @ [dq]) ss @ map (\<lambda>w. ''W/'' @ [dq] @ w @ [dq]) ws)"
proof -
  have "fmt_strong = (\<lambda>s. [dq] @ s @ [dq])" and "fmt_weak = (\<lambda>w. ''W/'' @ [dq] @ w @ [dq])"
    by (simp_all add: fun_eq_iff fmt_strong_def fmt_weak_def)
  then show ?thesis
    by (simp add: append_weak_map)
qed

section \<open>\<open>If-Range\<close>\<close>

lemma example_dates:
  "example_parse_date ''Sun, 06 Nov 1994 08:49:37 GMT'' = Inr 784111777"
  "example_parse_date ''Mon, 07 Nov 1994 08:49:37 GMT'' = Inr 784198177"
  "example_parse_date ''Sun, 06 Nov 1994 08:49:37 GMT '' = Inr 784111777"
  by (simp_all add: example_parse_date_def string_eval)

text \<open>
  C9. \<open>IfRange.match\<close> returns the containment of the tag in the held tag value, whatever
  \<open>last_modified\<close> is; \<open>IfRange.parse("")\<close> holds \<open>AnyETag\<close>, so its \<open>match\<close> is true for
  every tag.
\<close>

theorem IfRange_match_contains:
  "IfRange_match e tag last_modified = contains e tag
   \<and> match parse_date (IfRange e) tag last_modified = Inr (Some (contains e tag))
   \<and> match parse_date (IfRange e) tag last_modified = match parse_date (IfRange e) tag last_modified'
   \<and> IfRange_parse parse_date (Some []) = Inr (IfRange AnyETag)
   \<and> match parse_date (IfRange AnyETag) tag last_modified = Inr (Some True)"
  by (simp add: IfRange_match_def IfRange_parse_def)

text \<open>
  C4, as the specification words it, fails: the code tests the suffix on the value as it
  is, not on the trimmed value. With a trailing space the trimmed value ends in \<open>GMT\<close>
  after a space, the specification's dispatch gives a date, and the code parses a list of
  tags.
\<close>

theorem IfRange_parse_trimmed_counterexample:
  "endswith (strip_ws ''Sun, 06 Nov 1994 08:49:37 GMT '') '' GMT''
   \<and> spec_IfRange_parse example_parse_date (Some ''Sun, 06 Nov 1994 08:49:37 GMT '')
       = Inr (IfRangeDate 784111777)
   \<and> IfRange_parse example_parse_date (Some ''Sun, 06 Nov 1994 08:49:37 GMT '')
       = Inr (IfRange (ETagMatcher [''Sun'', ''06 Nov 1994 08:49:37 GMT''] []))"
proof (intro conjI)
  show t: "endswith (strip_ws ''Sun, 06 Nov 1994 08:49:37 GMT '') '' GMT''"
    by (simp add: string_eval)
  show "spec_IfRange_parse example_parse_date (Some ''Sun, 06 Nov 1994 08:49:37 GMT '')
       = Inr (IfRangeDate 784111777)"
    using t by (simp add: spec_IfRange_parse_def example_dates)
  have "ETagMatcher_parse ''Sun, 06 Nov 1994 08:49:37 GMT ''
      = Inr (ETagMatcher [''Sun'', ''06 Nov 1994 08:49:37 GMT''] [])"
    by (simp add: parse_eval)
  moreover have "\<not> endswith ''Sun, 06 Nov 1994 08:49:37 GMT '' '' GMT''"
    by (simp add: endswith_def)
  ultimately show "IfRange_parse example_parse_date (Some ''Sun, 06 Nov 1994 08:49:37 GMT '')
       = Inr (IfRange (ETagMatcher [''Sun'', ''06 Nov 1994 08:49:37 GMT''] []))"
    by (simp add: IfRange_parse_def)
qed

text \<open>
  C4, amended. \<open>IfRange.parse\<close> returns \<open>IfRange(AnyETag)\<close> for \<open>None\<close> and for the empty
  string; for a non-empty value that ends, untrimmed, with a space and \<open>GMT\<close> it returns
  \<open>IfRangeDate\<close> of the date \<open>parse_date\<close> returns for the value (and fails when
  \<open>parse_date\<close> fails); for every other value it returns \<open>IfRange\<close> of
  \<open>ETagMatcher.parse(value)\<close>.
\<close>

theorem IfRange_parse_dispatch:
  "(value = None \<or> value = Some [] \<longrightarrow> IfRange_parse parse_date value = Inr (IfRange AnyETag))
   \<and> (v \<noteq> [] \<and> endswith v '' GMT'' \<longrightarrow>
        IfRange_parse parse_date (Some v) =
          (case parse_date v of Inl e \<Rightarrow> Inl e | Inr d \<Rightarrow> Inr (IfRangeDate d)))
   \<and> (v \<noteq> [] \<and> \<not> endswith v '' GMT'' \<longrightarrow>
        (\<exists>m. ETagMatcher_parse v = Inr m \<and> IfRange_parse parse_date (Some v) = Inr (IfRange m)))"
proof (intro conjI impI)
  assume "value = None \<or> value = Some []"
  then show "IfRange_parse parse_date value = Inr (IfRange AnyETag)"
    by (auto simp: IfRange_parse_def)
next
  assume "v \<noteq> [] \<and> endswith v '' GMT''"
  then show "IfRange_parse parse_date (Some v) =
      (case parse_date v of Inl e \<Rightarrow> Inl e | Inr d \<Rightarrow> Inr (IfRangeDate d))"
    by (simp add: IfRange_parse_def)
next
  assume a: "v \<noteq> [] \<and> \<not> endswith v '' GMT''"
  obtain m where "ETagMatcher_parse v = Inr m"
    unfolding ETagMatcher_parse_def using parse_loop_total by blast
  with a show "\<exists>m. ETagMatcher_parse v = Inr m \<and> IfRange_parse parse_date (Some v) = Inr (IfRange m)"
    by (simp add: IfRange_parse_def)
qed

theorem IfRange_parse_dispatch_witness:
  "IfRange_parse example_parse_date None = Inr (IfRange AnyETag)
   \<and> (''Sun, 06 Nov 1994 08:49:37 GMT'' \<noteq> [] \<and> endswith ''Sun, 06 Nov 1994 08:49:37 GMT'' '' GMT'')
   \<and> IfRange_parse example_parse_date (Some ''Sun, 06 Nov 1994 08:49:37 GMT'')
        = Inr (IfRangeDate 784111777)
   \<and> (''W/x'' \<noteq> [] \<and> \<not> endswith ''W/x'' '' GMT'')
   \<and> IfRange_parse example_parse_date (Some ''W/x'') = Inr (IfRange (ETagMatcher [] [''x'']))"
proof -
  have h: "''Sun, 06 Nov 1994 08:49:37 GMT'' \<noteq> [] \<and> endswith ''Sun, 06 Nov 1994 08:49:37 GMT'' '' GMT''"
    by (simp add: endswith_def)
  have g: "''W/x'' \<noteq> [] \<and> \<not> endswith ''W/x'' '' GMT''"
    by (simp add: endswith_def)
  have m: "ETagMatcher_parse ''W/x'' = Inr (ETagMatcher [] [''x''])"
    by (simp add: parse_eval)
  have a: "IfRange_parse example_parse_date None = Inr (IfRange AnyETag)"
    using IfRange_parse_dispatch [of None example_parse_date "[]"] by simp
  have b: "IfRange_parse example_parse_date (Some ''Sun, 06 Nov 1994 08:49:37 GMT'')
        = Inr (IfRangeDate 784111777)"
    using IfRange_parse_dispatch [of None example_parse_date "''Sun, 06 Nov 1994 08:49:37 GMT''"] h
    by (simp add: example_dates)
  have c: "IfRange_parse example_parse_date (Some ''W/x'') = Inr (IfRange (ETagMatcher [] [''x'']))"
    using IfRange_parse_dispatch [of None example_parse_date "''W/x''"] g m
    by simp
  from a b c h g show ?thesis by simp
qed

text \<open>
  C5. \<open>IfRangeDate.match\<close> returns \<open>True\<close> exactly when \<open>last_modified\<close> is present and,
  parsed with \<open>parse_date\<close> when it is a string, is at most the held date. With a
  \<open>parse_date\<close> that reads the two dates of the example in their order, the object built
  from the first date matches the first date and not the second.
\<close>

theorem IfRangeDate_match_le:
  "(IfRangeDate_match parse_date d etag last_modified = Inr (Some True) \<longleftrightarrow>
      (case last_modified of
         LM_None \<Rightarrow> False
       | LM_Time t \<Rightarrow> t \<le> d
       | LM_Str s \<Rightarrow> (\<exists>t. parse_date s = Inr t \<and> t \<le> d)))
   \<and> (parse_date ''Sun, 06 Nov 1994 08:49:37 GMT'' = Inr t1
        \<and> parse_date ''Mon, 07 Nov 1994 08:49:37 GMT'' = Inr t2 \<and> t1 < t2 \<longrightarrow>
      IfRange_parse parse_date (Some ''Sun, 06 Nov 1994 08:49:37 GMT'') = Inr (IfRangeDate t1)
      \<and> match parse_date (IfRangeDate t1) None (LM_Str ''Sun, 06 Nov 1994 08:49:37 GMT'')
          = Inr (Some True)
      \<and> match parse_date (IfRangeDate t1) None (LM_Str ''Mon, 07 Nov 1994 08:49:37 GMT'')
          = Inr (Some False))"
proof (intro conjI impI)
  show "IfRangeDate_match parse_date d etag last_modified = Inr (Some True) \<longleftrightarrow>
      (case last_modified of
         LM_None \<Rightarrow> False
       | LM_Time t \<Rightarrow> t \<le> d
       | LM_Str s \<Rightarrow> (\<exists>t. parse_date s = Inr t \<and> t \<le> d))"
    by (auto simp: IfRangeDate_match_def split: last_modified.splits sum.splits)
next
  assume a: "parse_date ''Sun, 06 Nov 1994 08:49:37 GMT'' = Inr t1
        \<and> parse_date ''Mon, 07 Nov 1994 08:49:37 GMT'' = Inr t2 \<and> t1 < t2"
  have e: "endswith ''Sun, 06 Nov 1994 08:49:37 GMT'' '' GMT''"
    by (simp add: endswith_def)
  from a e show "IfRange_parse parse_date (Some ''Sun, 06 Nov 1994 08:49:37 GMT'') = Inr (IfRangeDate t1)"
    by (simp add: IfRange_parse_def)
  from a show "match parse_date (IfRangeDate t1) None (LM_Str ''Sun, 06 Nov 1994 08:49:37 GMT'')
          = Inr (Some True)"
    by (simp add: IfRangeDate_match_def)
  from a show "match parse_date (IfRangeDate t1) None (LM_Str ''Mon, 07 Nov 1994 08:49:37 GMT'')
          = Inr (Some False)"
    by (simp add: IfRangeDate_match_def not_le)
qed

theorem IfRangeDate_match_le_witness:
  "(example_parse_date ''Sun, 06 Nov 1994 08:49:37 GMT'' = Inr 784111777
    \<and> example_parse_date ''Mon, 07 Nov 1994 08:49:37 GMT'' = Inr 784198177
    \<and> (784111777 :: nat) < 784198177)
   \<and> match example_parse_date (IfRangeDate 784111777) None (LM_Str ''Sun, 06 Nov 1994 08:49:37 GMT'')
       = Inr (Some True)
   \<and> match example_parse_date (IfRangeDate 784111777) None (LM_Str ''Mon, 07 Nov 1994 08:49:37 GMT'')
       = Inr (Some False)"
proof -
  have h: "example_parse_date ''Sun, 06 Nov 1994 08:49:37 GMT'' = Inr 784111777
    \<and> example_parse_date ''Mon, 07 Nov 1994 08:49:37 GMT'' = Inr 784198177
    \<and> (784111777 :: nat) < 784198177"
    by (simp add: example_dates)
  note r = mp [OF conjunct2 [OF IfRangeDate_match_le
    [of example_parse_date 0 None LM_None 784111777 784198177]] h]
  from h r show ?thesis
    by simp
qed

section \<open>Parsing a header written in the grammar\<close>

lemma lower_char_w: "lower_char c = CHR ''w'' \<longleftrightarrow> c = CHR ''w'' \<or> c = CHR ''W''"
  by (simp add: lower_char_def)

lemma lower_char_slash: "lower_char c = CHR ''/'' \<longleftrightarrow> c = CHR ''/''"
  by (simp add: lower_char_def)

lemma startswith_weak:
  "startswith (lower s) ''w/'' \<longleftrightarrow> (\<exists>r. s = ''w/'' @ r \<or> s = ''W/'' @ r)"
proof (cases s)
  case Nil
  then show ?thesis by (simp add: startswith_def lower_def)
next
  case (Cons a s')
  then show ?thesis
    by (cases s') (auto simp: startswith_def lower_def lower_char_w lower_char_slash)
qed

lemma strip_Nil: "strip [] cs = []"
  by (simp add: strip_def)

lemma strip_leading: "a \<in> set cs \<Longrightarrow> strip (a # s) cs = strip s cs"
  by (simp add: strip_def)

lemma strip_keeps:
  assumes "s \<noteq> []" and "hd s \<notin> set cs" and "last s \<notin> set cs"
  shows "strip s cs = s"
proof -
  from assms(1,2) have "dropWhile (\<lambda>c. c \<in> set cs) s = s"
    by (cases s) simp_all
  moreover from assms(1,3) have "dropWhile (\<lambda>c. c \<in> set cs) (rev s) = rev s"
    by (cases "rev s") (simp_all add: last_rev [symmetric] hd_rev)
  ultimately show ?thesis
    by (simp add: strip_def)
qed

lemma split_at_quote:
  assumes "dq \<notin> set b"
  shows "unpack2 (split1 (b @ dq # tail) dq) = Inr (b, tail)"
proof -
  have "takeWhile (\<lambda>x. x \<noteq> dq) (b @ dq # tail) = b"
    using assms by (auto simp: takeWhile_tail)
  moreover have "dropWhile (\<lambda>x. x \<noteq> dq) (b @ dq # tail) = dq # tail"
    using assms by (auto simp: dropWhile_append3)
  ultimately show ?thesis
    by (simp add: unpack2_split1)
qed

lemma parse_item_element:
  assumes "dq \<notin> set b"
  shows "parse_item (element_text (mk, b) @ tail) = Inr (mk \<noteq> Strong, b, strip tail '', '')"
proof (cases mk)
  case Strong
  have "\<not> startswith (lower (dq # b @ dq # tail)) ''w/''"
    by (simp add: startswith_weak)
  then show ?thesis
    using Strong split_at_quote [OF assms, of tail]
    by (simp add: parse_item_def element_text_def Let_def startswith_def)
next
  case WeakUpper
  have "startswith (lower (''W/'' @ dq # b @ dq # tail)) ''w/''"
    unfolding startswith_weak by blast
  then show ?thesis
    using WeakUpper split_at_quote [OF assms, of tail]
    by (simp add: parse_item_def element_text_def Let_def startswith_def)
next
  case WeakLower
  have "startswith (lower (''w/'' @ dq # b @ dq # tail)) ''w/''"
    unfolding startswith_weak by blast
  then show ?thesis
    using WeakLower split_at_quote [OF assms, of tail]
    by (simp add: parse_item_def element_text_def Let_def startswith_def)
qed


lemma header_text_Cons:
  "header_text (e # es) = element_text e @ (if es = [] then [] else '', '' @ header_text es)"
  by (cases es) (simp_all add: header_text_def)

lemma element_text_ends: "element_text e \<noteq> [] \<and> last (element_text e) = dq"
  by (simp add: element_text_def)

lemma element_text_starts: "hd (element_text e) \<in> {dq, CHR ''W'', CHR ''w''}"
  by (cases "fst e") (simp_all add: element_text_def)

lemma header_text_ends: "es \<noteq> [] \<Longrightarrow> header_text es \<noteq> [] \<and> last (header_text es) = dq"
proof (induction es)
  case Nil
  then show ?case by simp
next
  case (Cons e es)
  then show ?case
    using element_text_ends [of e] by (simp add: header_text_Cons)
qed

lemma header_text_starts:
  assumes "es \<noteq> []"
  shows "hd (header_text es) \<in> {dq, CHR ''W'', CHR ''w''}"
proof (cases es)
  case Nil
  with assms show ?thesis by simp
next
  case (Cons e es')
  then show ?thesis
    using element_text_starts [of e] element_text_ends [of e]
    by (simp add: header_text_Cons)
qed

lemma strip_separator:
  "strip (if es = [] then [] else '', '' @ header_text es) '', '' = header_text es"
proof (cases "es = []")
  case True
  then show ?thesis by (simp add: strip_Nil header_text_def)
next
  case False
  have "strip (header_text es) '', '' = header_text es"
    using header_text_ends [OF False] header_text_starts [OF False]
    by (intro strip_keeps) auto
  with False show ?thesis
    by (simp add: strip_leading)
qed

lemma parse_loop_header:
  assumes "\<forall>e \<in> set es. quotable (snd e)"
  shows "parse_loop (header_text es) results weak_results =
     Inr (ETagMatcher (results @ strong_bodies es) (weak_results @ weak_bodies es))"
  using assms
proof (induction es arbitrary: results weak_results)
  case Nil
  then show ?case
    by (simp add: header_text_def parse_loop.simps strong_bodies_def weak_bodies_def)
next
  case (Cons e es)
  obtain mk b where e: "e = (mk, b)"
    by (cases e)
  from Cons.prems e have b: "b \<noteq> []" "dq \<notin> set b" "b \<noteq> ''*''"
    by (simp_all add: quotable_def)
  from Cons.prems have rest: "\<forall>e \<in> set es. quotable (snd e)"
    by simp
  have item: "parse_item (header_text (e # es)) = Inr (mk \<noteq> Strong, b, header_text es)"
    using parse_item_element [OF b(2), of mk] by (simp add: header_text_Cons e strip_separator)
  have ne: "header_text (e # es) \<noteq> []"
    using element_text_ends [of e] by (simp add: header_text_Cons)
  show ?case
  proof (cases "mk = Strong")
    case True
    with ne item b show ?thesis
      by (subst parse_loop.simps)
         (simp add: Cons.IH [OF rest] e strong_bodies_def weak_bodies_def)
  next
    case False
    with ne item b show ?thesis
      by (subst parse_loop.simps)
         (simp add: Cons.IH [OF rest] e strong_bodies_def weak_bodies_def)
  qed
qed

lemma str_etag_header: "str_etag (ETagMatcher ss []) = header_text (map (Pair Strong) ss)"
proof -
  have "fmt_strong = element_text \<circ> Pair Strong"
    by (simp add: fun_eq_iff fmt_strong_def element_text_def)
  then show ?thesis
    by (simp add: header_text_def)
qed

text \<open>
  C7. Round trip: for strong tags that are not empty, hold no quote and no comma and are
  not \<open>*\<close>, parsing the string form of the matcher that holds them (and no weak tag)
  gives back a matcher with the same strong tags, in the same order, and no weak tag.
\<close>

theorem parse_str_round_trip:
  assumes "\<forall>s \<in> set ss. s \<noteq> [] \<and> dq \<notin> set s \<and> CHR '','' \<notin> set s \<and> s \<noteq> ''*''"
  shows "ETagMatcher_parse (str_etag (ETagMatcher ss [])) = Inr (ETagMatcher ss [])
     \<and> (\<exists>m. ETagMatcher_parse (str_etag (ETagMatcher ss [])) = Inr m
           \<and> set (etags m) = set ss \<and> weak_etags m = [])"
proof -
  from assms have "\<forall>e \<in> set (map (Pair Strong) ss). quotable (snd e)"
    by (auto simp: quotable_def)
  then have "parse_loop (header_text (map (Pair Strong) ss)) [] [] =
      Inr (ETagMatcher ([] @ strong_bodies (map (Pair Strong) ss))
                       ([] @ weak_bodies (map (Pair Strong) ss)))"
    by (rule parse_loop_header)
  moreover have "strong_bodies (map (Pair Strong) ss) = ss"
    by (induction ss) (simp_all add: strong_bodies_def)
  moreover have "weak_bodies (map (Pair Strong) ss) = []"
    by (induction ss) (simp_all add: weak_bodies_def)
  ultimately have "ETagMatcher_parse (str_etag (ETagMatcher ss [])) = Inr (ETagMatcher ss [])"
    unfolding ETagMatcher_parse_def str_etag_header by simp
  then show ?thesis
    by simp
qed

theorem parse_str_round_trip_witness:
  "(''abc'' \<noteq> [] \<and> dq \<notin> set ''abc'' \<and> CHR '','' \<notin> set ''abc'' \<and> ''abc'' \<noteq> ''*'')
   \<and> (''x y'' \<noteq> [] \<and> dq \<notin> set ''x y'' \<and> CHR '','' \<notin> set ''x y'' \<and> ''x y'' \<noteq> ''*'')
   \<and> ETagMatcher_parse (str_etag (ETagMatcher [''abc'', ''x y''] []))
        = Inr (ETagMatcher [''abc'', ''x y''] [])"
proof -
  have h: "\<forall>s \<in> set [''abc'', ''x y'']. s \<noteq> [] \<and> dq \<notin> set s \<and> CHR '','' \<notin> set s \<and> s \<noteq> ''*''"
    by simp
  from parse_str_round_trip [OF h] show ?thesis
    by simp
qed

section \<open>Containment and the elements of a header\<close>

lemma split_commas_ne: "split_commas s \<noteq> []"
  by (induction s) (simp_all split: list.split)












end
